theory Spec2Isabelle
  imports Complex_Main "HOL-Library.Log_Nat" "HOL-Library.Char_ord" "HOL-Library.List_Lexorder"
    "HOL-Library.Sublist"
begin

section \<open>Python values used by \<open>finance_dashboard.py\<close>\<close>

text \<open>
  The dashboard script works on text messages and on amounts. A message is a \<open>string\<close>,
  read as the UTF-8 bytes of the Python \<open>str\<close>: every ASCII character is one \<open>char\<close>, the
  rupee sign U+20B9 is the three bytes E2 82 B9. Python's character classes (\<open>\s\<close>,
  \<open>\d\<close>, \<open>str.lower\<close>, \<open>str.strip\<close>) are modelled on ASCII; bytes above 127 are
  neither digits nor white space and have no case. This is what Python does on every text
  whose non-ASCII characters are not Unicode digits, Unicode spaces or cased letters.

  An exception is a value of type \<open>error\<close>; a computation that may raise returns
  \<open>error + 'a\<close> with \<open>Inl\<close> for the exception.
\<close>

datatype error = ValueError | KeyError

subsection \<open>Binary64 floating point\<close>

text \<open>
  Amounts are Python \<open>float\<close>s (numpy \<open>float64\<close> inside a column). A finite double is
  modelled by its exact rational value; \<open>fl\<close> rounds a rational to the nearest double,
  ties to even, with gradual underflow and overflow to infinity. Signed zeros are not
  distinguished (they compare equal in Python).
\<close>

datatype pyfloat = Fin rat | PInf | NInf | NaN

definition pow2 :: "int \<Rightarrow> rat" where
  "pow2 e = (if 0 \<le> e then 2 ^ nat e else 1 / 2 ^ nat (- e))"

definition ilog2 :: "rat \<Rightarrow> int" where
  \<comment> \<open>for \<open>0 < q\<close>: the exponent \<open>e\<close> with \<open>2\<^sup>e \<le> q < 2\<^sup>e\<^sup>+\<^sup>1\<close>\<close>
  "ilog2 q = (if 1 \<le> q then bitlen \<lfloor>q\<rfloor> - 1 else - bitlen (\<lceil>1 / q\<rceil> - 1))"

definition round_even :: "rat \<Rightarrow> int" where
  "round_even x =
     (let f = \<lfloor>x\<rfloor>; d = x - of_int f
      in if d < 1 / 2 then f else if 1 / 2 < d then f + 1 else if even f then f else f + 1)"

definition fl_pos :: "rat \<Rightarrow> pyfloat" where
  \<comment> \<open>for \<open>0 < q\<close>: 53 bits of precision, exponents from -1022 to 1023\<close>
  "fl_pos q =
     (let e = max (ilog2 q) (- 1022);
          ulp = pow2 (e - 52);
          n = round_even (q / ulp)
      in if 1023 < e \<or> (e = 1023 \<and> 2 ^ 53 \<le> n) then PInf else Fin (of_int n * ulp))"

fun fneg :: "pyfloat \<Rightarrow> pyfloat" where
  "fneg (Fin a) = Fin (- a)"
| "fneg PInf = NInf"
| "fneg NInf = PInf"
| "fneg NaN = NaN"

definition fl :: "rat \<Rightarrow> pyfloat" where
  "fl q = (if q = 0 then Fin 0 else if 0 < q then fl_pos q else fneg (fl_pos (- q)))"

fun fsign :: "pyfloat \<Rightarrow> int" where
  "fsign (Fin a) = (if a = 0 then 0 else if 0 < a then 1 else - 1)"
| "fsign PInf = 1"
| "fsign NInf = - 1"
| "fsign NaN = 0"

definition of_sign :: "int \<Rightarrow> pyfloat" where
  "of_sign s = (if s = 0 then NaN else if 0 < s then PInf else NInf)"

fun fadd :: "pyfloat \<Rightarrow> pyfloat \<Rightarrow> pyfloat" where
  "fadd (Fin a) (Fin b) = fl (a + b)"
| "fadd NaN y = NaN"
| "fadd x NaN = NaN"
| "fadd PInf NInf = NaN"
| "fadd NInf PInf = NaN"
| "fadd PInf y = PInf"
| "fadd NInf y = NInf"
| "fadd (Fin a) y = y"

fun fmul :: "pyfloat \<Rightarrow> pyfloat \<Rightarrow> pyfloat" where
  "fmul (Fin a) (Fin b) = fl (a * b)"
| "fmul NaN y = NaN"
| "fmul x NaN = NaN"
| "fmul x y = of_sign (fsign x * fsign y)"

fun fdiv :: "pyfloat \<Rightarrow> pyfloat \<Rightarrow> pyfloat" where
  \<comment> \<open>numpy scalars: a zero divisor gives an infinity or NaN (with a warning), no exception\<close>
  "fdiv (Fin a) (Fin b) = (if b = 0 then of_sign (fsign (Fin a)) else fl (a / b))"
| "fdiv NaN y = NaN"
| "fdiv x NaN = NaN"
| "fdiv (Fin a) y = Fin 0"
| "fdiv x (Fin b) = (if b < 0 then fneg x else x)"
| "fdiv x y = NaN"

fun fgt :: "pyfloat \<Rightarrow> pyfloat \<Rightarrow> bool" where
  \<comment> \<open>\<open>x > y\<close>; every comparison with NaN is false\<close>
  "fgt (Fin a) (Fin b) = (b < a)"
| "fgt NaN y = False"
| "fgt x NaN = False"
| "fgt x PInf = False"
| "fgt NInf y = False"
| "fgt x y = True"

definition fmin :: "pyfloat \<Rightarrow> pyfloat \<Rightarrow> pyfloat" where
  \<comment> \<open>Python's \<open>min(a, b)\<close>: \<open>b\<close> only when \<open>b < a\<close>\<close>
  "fmin a b = (if fgt a b then b else a)"

definition fsum :: "pyfloat list \<Rightarrow> pyfloat" where
  \<comment> \<open>\<open>Series.sum()\<close>: 0 for an empty column; the additions are taken left to right
      (numpy regroups the additions of a long column, which can change the last bits of the
      sum and nothing else)\<close>
  "fsum xs = foldl fadd (Fin 0) xs"

subsection \<open>Text\<close>

definition is_space :: "char \<Rightarrow> bool" where
  \<comment> \<open>\<open>str.isspace\<close> and the class \<open>\s\<close> on ASCII: 9-13, 28-31 and the blank\<close>
  "is_space c = (let n = (of_char c :: int) in (9 \<le> n \<and> n \<le> 13) \<or> (28 \<le> n \<and> n \<le> 32))"

definition is_digit :: "char \<Rightarrow> bool" where
  \<comment> \<open>the class \<open>\d\<close> on ASCII\<close>
  "is_digit c = (let n = (of_char c :: int) in 48 \<le> n \<and> n \<le> 57)"

definition lower_char :: "char \<Rightarrow> char" where
  "lower_char c = (let n = (of_char c :: int) in if 65 \<le> n \<and> n \<le> 90 then char_of (n + 32) else c)"

definition lower :: "string \<Rightarrow> string" where
  \<comment> \<open>\<open>str.lower()\<close>\<close>
  "lower s = map lower_char s"

definition strip :: "string \<Rightarrow> string" where
  \<comment> \<open>\<open>str.strip()\<close>: white space removed at both ends\<close>
  "strip s = rev (dropWhile is_space (rev (dropWhile is_space s)))"

fun py_in :: "string \<Rightarrow> string \<Rightarrow> bool" where
  \<comment> \<open>\<open>x in text\<close> on strings: \<open>x\<close> occurs in \<open>text\<close> as a contiguous substring\<close>
  "py_in x [] = (x = [])"
| "py_in x (c # cs) = (prefix x (c # cs) \<or> py_in x cs)"

section \<open>The Amount Extractor (lines 152-156)\<close>

text \<open>
  \<^verbatim>\<open>match = re.search(r"(?i)(?:inr|aed|<rupee>)\s?([\d,]+\.?\d*)", text)\<close>

  \<^verbatim>\<open>if match: return float(match.group(1).replace(",", ""))\<close>

  \<^verbatim>\<open>return None\<close>

  The regular expression is matched as Python's backtracking engine does: \<open>re.search\<close>
  tries every start position from the left and keeps the first position where the pattern
  matches; at one position the alternatives of the marker are tried in order, \<open>\s?\<close>
  first takes a white space character and gives it back if the rest fails, and the greedy
  \<open>[\d,]+\<close>, \<open>\.?\<close> and \<open>\d*\<close> take all they can (whatever follows them is optional, so
  they are never asked to give anything back).
\<close>

definition rupee :: string where
  "rupee = [CHR 0xE2, CHR 0x82, CHR 0xB9]"

definition markers :: "string list" where
  "markers = [''inr'', ''aed'', rupee]"

fun match_ci :: "string \<Rightarrow> string \<Rightarrow> string option" where
  \<comment> \<open>a literal under \<open>(?i)\<close>: the text left after it, if the text starts with it\<close>
  "match_ci [] s = Some s"
| "match_ci (p # ps) [] = None"
| "match_ci (p # ps) (c # cs) = (if lower_char c = lower_char p then match_ci ps cs else None)"

definition is_digit_or_comma :: "char \<Rightarrow> bool" where
  "is_digit_or_comma c = (is_digit c \<or> c = CHR '','')"

definition match_number :: "string \<Rightarrow> string option" where
  \<comment> \<open>\<open>([\d,]+\.?\d*)\<close>: the text of group 1\<close>
  "match_number s =
     (let body = takeWhile is_digit_or_comma s; rest = dropWhile is_digit_or_comma s
      in if body = [] then None
         else case rest of
                c # rest' \<Rightarrow>
                  if c = CHR ''.'' then Some (body @ [c] @ takeWhile is_digit rest')
                  else Some body
              | [] \<Rightarrow> Some body)"

definition match_tail :: "string \<Rightarrow> string option" where
  \<comment> \<open>\<open>\s?([\d,]+\.?\d*)\<close>\<close>
  "match_tail s =
     (case s of
        c # cs \<Rightarrow>
          if is_space c
          then (case match_number cs of Some g \<Rightarrow> Some g | None \<Rightarrow> match_number s)
          else match_number s
      | [] \<Rightarrow> match_number s)"

fun first_some :: "('a \<Rightarrow> 'b option) \<Rightarrow> 'a list \<Rightarrow> 'b option" where
  "first_some f [] = None"
| "first_some f (x # xs) = (case f x of Some y \<Rightarrow> Some y | None \<Rightarrow> first_some f xs)"

definition match_here :: "string \<Rightarrow> string option" where
  \<comment> \<open>the whole pattern at the start of the text\<close>
  "match_here s =
     first_some (\<lambda>m. case match_ci m s of Some r \<Rightarrow> match_tail r | None \<Rightarrow> None) markers"

fun search :: "string \<Rightarrow> string option" where
  \<comment> \<open>\<open>re.search\<close>: group 1 of the leftmost match\<close>
  "search [] = match_here []"
| "search (c # cs) = (case match_here (c # cs) of Some g \<Rightarrow> Some g | None \<Rightarrow> search cs)"

definition digits_value :: "string \<Rightarrow> int" where
  "digits_value ds = foldl (\<lambda>n c. 10 * n + (of_char c - 48)) 0 ds"

definition py_float :: "string \<Rightarrow> error + pyfloat" where
  \<comment> \<open>\<open>float(s)\<close> on the texts group 1 can hold once the commas are removed: digits with
      at most one point. Without a digit Python raises \<open>ValueError\<close>. (Signs, exponents,
      blanks and the words \<open>inf\<close> and \<open>nan\<close> never reach it.)\<close>
  "py_float s =
     (let ip = takeWhile is_digit s; rest = dropWhile is_digit s;
          fp = (case rest of c # r \<Rightarrow> if c = CHR ''.'' then r else rest | [] \<Rightarrow> [])
      in if (rest \<noteq> [] \<and> hd rest \<noteq> CHR ''.'') \<or> \<not> list_all is_digit fp \<or> (ip = [] \<and> fp = [])
         then Inl ValueError
         else Inr (fl (of_int (digits_value (ip @ fp)) / 10 ^ length fp)))"

definition extract_amount :: "string \<Rightarrow> error + pyfloat option" where
  "extract_amount text =
     (case search text of
        Some g \<Rightarrow>
          (case py_float (filter (\<lambda>c. c \<noteq> CHR '','') g) of
             Inl e \<Rightarrow> Inl e
           | Inr v \<Rightarrow> Inr (Some v))
      | None \<Rightarrow> Inr None)"

definition literal_value :: "string \<Rightarrow> rat" where
  \<comment> \<open>the number a literal denotes once its commas are dropped: its digits, divided by
      ten for every digit after the point\<close>
  "literal_value g =
     of_int (digits_value (filter is_digit g)) /
       10 ^ length (filter is_digit (dropWhile (\<lambda>c. c \<noteq> CHR ''.'') g))"

section \<open>The Type Tagger (lines 172-179)\<close>

definition debit_keywords :: "string list" where
  "debit_keywords = [''debited'', ''spent'', ''purchase'', ''paid'', ''withdrawal'']"

definition credit_keywords :: "string list" where
  "credit_keywords = [''credited'', ''received'', ''refund'', ''deposit'', ''salary'']"

definition detect_type :: "string \<Rightarrow> string" where
  \<comment> \<open>\<open>str(text)\<close> is \<open>text\<close> itself: the column holds strings\<close>
  "detect_type text =
     (let t = lower text
      in if list_ex (\<lambda>x. py_in x t) debit_keywords then ''Debit''
         else if list_ex (\<lambda>x. py_in x t) credit_keywords then ''Credit''
         else ''Unknown'')"

section \<open>The uploaded table and data frames\<close>

text \<open>
  \<open>pd.read_csv\<close> gives the uploaded table: its column names in file order and one record
  per line, a text per column or nothing for an empty field. The columns are text columns;
  the typing of numeric columns by \<open>read_csv\<close> is not modelled.

  A data frame has its column names in order and its rows; a row maps a column name to a
  cell, and a missing value (\<open>None\<close>, \<open>NaN\<close>) is the absence of a cell.
\<close>

record upload =
  header :: "string list"
  records :: "(string \<Rightarrow> string option) list"

datatype cell = Text string | Number pyfloat

type_synonym row = "string \<Rightarrow> cell option"

record frame =
  columns :: "string list"
  rows :: "row list"

definition astype_str :: "string option \<Rightarrow> string" where
  \<comment> \<open>\<open>astype(str)\<close> on a cell of a text column: a missing value becomes the text \<open>nan\<close>\<close>
  "astype_str c = (case c of Some s \<Rightarrow> s | None \<Rightarrow> ''nan'')"

definition add_column :: "string \<Rightarrow> string list \<Rightarrow> string list" where
  \<comment> \<open>\<open>df[c] = ...\<close>: an existing column keeps its place, a new one goes last\<close>
  "add_column c cs = (if c \<in> set cs then cs else cs @ [c])"

fun set_cells :: "string \<Rightarrow> row list \<Rightarrow> cell option list \<Rightarrow> row list" where
  \<comment> \<open>the cells of a series written into the rows with the same index\<close>
  "set_cells c [] vs = []"
| "set_cells c (r # rs) [] = r(c := None) # set_cells c rs []"
| "set_cells c (r # rs) (v # vs) = r(c := v) # set_cells c rs vs"

definition set_series :: "string \<Rightarrow> cell option list \<Rightarrow> frame \<Rightarrow> frame" where
  \<comment> \<open>\<open>df[c] = series\<close>, the series on the frame's own index\<close>
  "set_series c vs df = \<lparr>columns = add_column c (columns df), rows = set_cells c (rows df) vs\<rparr>"

definition set_array :: "string \<Rightarrow> cell option list \<Rightarrow> frame \<Rightarrow> error + frame" where
  \<comment> \<open>\<open>df[c] = array\<close>: pandas raises \<open>ValueError\<close> unless there is one value per row\<close>
  "set_array c vs df =
     (if length vs \<noteq> length (rows df) then Inl ValueError else Inr (set_series c vs df))"

definition set_scalar :: "string \<Rightarrow> cell \<Rightarrow> frame \<Rightarrow> frame" where
  \<comment> \<open>\<open>df[c] = value\<close>\<close>
  "set_scalar c v df =
     \<lparr>columns = add_column c (columns df), rows = map (\<lambda>r. r(c \<mapsto> v)) (rows df)\<rparr>"

definition dropna :: "string \<Rightarrow> frame \<Rightarrow> frame" where
  \<comment> \<open>\<open>df.dropna(subset=[c])\<close>\<close>
  "dropna c df = df\<lparr>rows := filter (\<lambda>r. r c \<noteq> None) (rows df)\<rparr>"

definition text_of :: "cell option \<Rightarrow> string" where
  \<comment> \<open>the string in a cell of a column of strings\<close>
  "text_of c = (case c of Some (Text s) \<Rightarrow> s | _ \<Rightarrow> [])"

definition column :: "string \<Rightarrow> frame \<Rightarrow> cell option list" where
  \<comment> \<open>\<open>df[c]\<close>\<close>
  "column c df = map (\<lambda>r. r c) (rows df)"

definition sms_column :: "frame \<Rightarrow> string list" where
  \<comment> \<open>\<open>df["SMS"]\<close>, a column of strings from line 149 on\<close>
  "sms_column df = map text_of (column ''SMS'' df)"

section \<open>The Transaction Pipeline (lines 147-181)\<close>

definition normalise :: "string option \<Rightarrow> string" where
  \<comment> \<open>line 149, one cell: \<open>astype(str).str.lower().str.strip()\<close>\<close>
  "normalise c = strip (lower (astype_str c))"

definition preprocess :: "upload \<Rightarrow> frame" where
  \<comment> \<open>line 149: the column SMS is overwritten in place\<close>
  "preprocess up =
     \<lparr>columns = header up,
      rows = map (\<lambda>u. (map_option Text \<circ> u)(''SMS'' \<mapsto> Text (normalise (u ''SMS'')))) (records up)\<rparr>"

fun series_apply :: "(string \<Rightarrow> error + 'a) \<Rightarrow> string list \<Rightarrow> error + 'a list" where
  \<comment> \<open>\<open>Series.apply(f)\<close>: the first exception of \<open>f\<close> ends the whole call\<close>
  "series_apply f [] = Inr []"
| "series_apply f (t # ts) =
     (case f t of
        Inl e \<Rightarrow> Inl e
      | Inr v \<Rightarrow> (case series_apply f ts of Inl e \<Rightarrow> Inl e | Inr vs \<Rightarrow> Inr (v # vs)))"

definition amount_handling :: "frame \<Rightarrow> frame" where
  \<comment> \<open>lines 161-165; the zero written at line 163 is the integer 0, the same number\<close>
  "amount_handling df =
     (if list_all (\<lambda>r. r ''Amount'' = None) (rows df)
      then set_scalar ''Amount'' (Number (Fin 0)) df
      else dropna ''Amount'' df)"

definition process :: "(string list \<Rightarrow> string list) \<Rightarrow> upload \<Rightarrow> error + frame" where
  \<comment> \<open>\<open>predict\<close> stands for \<open>model.predict(vectorizer.transform(...))\<close>, the trained
      classifier loaded from disk\<close>
  "process predict up =
     (let df1 = preprocess up
      in case series_apply extract_amount (sms_column df1) of
           Inl e \<Rightarrow> Inl e
         | Inr amounts \<Rightarrow>
             (let df2 = set_series ''Amount'' (map (map_option Number) amounts) df1;
                  df3 = amount_handling df2
              in case set_array ''Predicted_Category''
                        (map (\<lambda>l. Some (Text l)) (predict (sms_column df3))) df3 of
                   Inl e \<Rightarrow> Inl e
                 | Inr df4 \<Rightarrow>
                     Inr (set_series ''Type''
                            (map (\<lambda>t. Some (Text (detect_type t))) (sms_column df4)) df4)))"

section \<open>Filters, key metrics, advisor and export (lines 188-296)\<close>

definition isin :: "string list \<Rightarrow> cell option \<Rightarrow> bool" where
  "isin selected c = (case c of Some (Text s) \<Rightarrow> s \<in> set selected | _ \<Rightarrow> False)"

definition apply_filters :: "string list \<Rightarrow> string list \<Rightarrow> frame \<Rightarrow> frame" where
  \<comment> \<open>lines 196-199, for the selections of the two multiselect boxes\<close>
  "apply_filters selected_type selected_cat df =
     df\<lparr>rows := filter (\<lambda>r. isin selected_type (r ''Type'') \<and>
                            isin selected_cat (r ''Predicted_Category'')) (rows df)\<rparr>"

definition texts :: "string \<Rightarrow> frame \<Rightarrow> string list" where
  "texts c df = concat (map (\<lambda>r. case r c of Some (Text s) \<Rightarrow> [s] | _ \<Rightarrow> []) (rows df))"

definition unique :: "'a list \<Rightarrow> 'a list" where
  \<comment> \<open>\<open>Series.unique()\<close>: the values in order of first appearance\<close>
  "unique xs = rev (remdups (rev xs))"

definition amounts_of :: "row list \<Rightarrow> pyfloat list" where
  \<comment> \<open>the numbers of the column Amount; \<open>sum()\<close> skips missing values\<close>
  "amounts_of rs =
     concat (map (\<lambda>r. case r ''Amount'' of
                         Some (Number x) \<Rightarrow> if x = NaN then [] else [x]
                       | _ \<Rightarrow> []) rs)"

definition total_of :: "string \<Rightarrow> frame \<Rightarrow> pyfloat" where
  \<comment> \<open>\<open>df[df["Type"] == ty]["Amount"].sum()\<close>\<close>
  "total_of ty df = fsum (amounts_of (filter (\<lambda>r. r ''Type'' = Some (Text ty)) (rows df)))"

definition groupby_sum :: "frame \<Rightarrow> (string \<times> pyfloat) list" where
  \<comment> \<open>\<open>df.groupby("Predicted_Category")["Amount"].sum()\<close>: one sum per label, the labels
      sorted\<close>
  "groupby_sum df =
     map (\<lambda>k. (k, fsum (amounts_of (filter (\<lambda>r. r ''Predicted_Category'' = Some (Text k)) (rows df)))))
         (sort (remdups (texts ''Predicted_Category'' df)))"

definition idxmax :: "(string \<times> pyfloat) list \<Rightarrow> error + string" where
  \<comment> \<open>the label of the first largest value, NaN skipped; without any value an exception\<close>
  "idxmax kvs =
     (case filter (\<lambda>kv. snd kv \<noteq> NaN) kvs of
        [] \<Rightarrow> Inl ValueError
      | kv # rest \<Rightarrow> Inr (fst (foldl (\<lambda>best kv'. if fgt (snd kv') (snd best) then kv' else best) kv rest)))"

definition empty :: "frame \<Rightarrow> bool" where
  \<comment> \<open>\<open>df.empty\<close>\<close>
  "empty df = (rows df = [] \<or> columns df = [])"

record metrics =
  total_spent :: pyfloat
  total_credited :: pyfloat
  top_cat :: string

definition key_metrics :: "frame \<Rightarrow> error + metrics" where
  \<comment> \<open>lines 205-210\<close>
  "key_metrics filtered_df =
     (case (if \<not> empty filtered_df then idxmax (groupby_sum filtered_df) else Inr ''N/A'') of
        Inl e \<Rightarrow> Inl e
      | Inr label \<Rightarrow>
          Inr \<lparr>total_spent = total_of ''Debit'' filtered_df,
               total_credited = total_of ''Credit'' filtered_df,
               top_cat = label\<rparr>)"

datatype message =
    Over80 | Between60And80 | HealthyRatio
  | ReduceFoodDeliveries | ShoppingCap | AuditSubscriptions | OffPeakTrips | KeepTracking
  | NoMatch

datatype ui = Progress pyfloat | Caption pyfloat | Warning message | Info message | Success message

definition spend_ratio :: "pyfloat \<Rightarrow> pyfloat \<Rightarrow> pyfloat option" where
  \<comment> \<open>lines 258-259: the ratio exists only under the guard\<close>
  "spend_ratio spent credited =
     (if fgt credited (Fin 0) then Some (fdiv spent credited) else None)"

definition ratio_band :: "pyfloat \<Rightarrow> pyfloat \<Rightarrow> ui" where
  \<comment> \<open>lines 263-268; \<open>0.8\<close> and \<open>0.6\<close> are the doubles nearest to 4/5 and 3/5\<close>
  "ratio_band spent credited =
     (if fgt spent (fmul credited (fl (4 / 5))) then Warning Over80
      else if fgt spent (fmul credited (fl (3 / 5))) then Info Between60And80
      else Success HealthyRatio)"

definition category_tip :: "string \<Rightarrow> ui" where
  \<comment> \<open>lines 271-280\<close>
  "category_tip label =
     (if label = ''Food'' then Info ReduceFoodDeliveries
      else if label = ''Shopping'' then Info ShoppingCap
      else if label = ''Bills'' then Info AuditSubscriptions
      else if label = ''Travel'' then Info OffPeakTrips
      else Info KeepTracking)"

definition savings_advisor :: "pyfloat \<Rightarrow> pyfloat \<Rightarrow> string \<Rightarrow> ui list" where
  \<comment> \<open>lines 258-280; the caption shows the ratio times 100\<close>
  "savings_advisor spent credited label =
     (case spend_ratio spent credited of
        Some r \<Rightarrow> [Progress (fmin r (Fin 1)), Caption (fmul r (Fin 100)), ratio_band spent credited]
      | None \<Rightarrow> [])
     @ [category_tip label]"

type_synonym csv = "string list \<times> cell option list list"

definition to_csv :: "frame \<Rightarrow> csv" where
  \<comment> \<open>\<open>df.to_csv(index=False)\<close>: the header line, then one record per row with the cells
      in column order (the quoting and the printing of numbers are not modelled)\<close>
  "to_csv df = (columns df, map (\<lambda>r. map r (columns df)) (rows df))"

definition csv_column :: "string \<Rightarrow> csv \<Rightarrow> cell option list" where
  \<comment> \<open>reading a file back: the fields under the first header field named \<open>c\<close>\<close>
  "csv_column c f = map (\<lambda>fields. fields ! length (takeWhile (\<lambda>h. h \<noteq> c) (fst f))) (snd f)"

definition select_columns :: "string list \<Rightarrow> frame \<Rightarrow> error + frame" where
  \<comment> \<open>\<open>df[[c1, c2, ...]]\<close>\<close>
  "select_columns cs df =
     (if set cs \<subseteq> set (columns df)
      then Inr \<lparr>columns = cs, rows = map (\<lambda>r c. if c \<in> set cs then r c else None) (rows df)\<rparr>
      else Inl KeyError)"

record report =
  key :: metrics
  advice :: "ui list"
  table :: "csv option"
  download :: "csv option"

definition view :: "string list \<Rightarrow> string list \<Rightarrow> frame \<Rightarrow> error + report" where
  \<comment> \<open>lines 196-296 (the charts are left out)\<close>
  "view selected_type selected_cat df =
     (let filtered_df = apply_filters selected_type selected_cat df
      in case key_metrics filtered_df of
           Inl e \<Rightarrow> Inl e
         | Inr m \<Rightarrow>
             if \<not> empty filtered_df
             then (case select_columns [''SMS'', ''Amount'', ''Type'', ''Predicted_Category''] filtered_df of
                     Inl e \<Rightarrow> Inl e
                   | Inr shown \<Rightarrow>
                       Inr \<lparr>key = m,
                            advice = savings_advisor (total_spent m) (total_credited m) (top_cat m),
                            table = Some (to_csv shown),
                            download = Some (to_csv filtered_df)\<rparr>)
             else Inr \<lparr>key = m, advice = [Warning NoMatch], table = None, download = None\<rparr>)"

definition dashboard ::
  "(string list \<Rightarrow> string list) \<Rightarrow> upload \<Rightarrow> string list \<Rightarrow> string list \<Rightarrow> error + report option" where
  \<comment> \<open>lines 130-296: without a column SMS the upload is refused and nothing is analysed\<close>
  "dashboard predict up selected_type selected_cat =
     (if ''SMS'' \<notin> set (header up) then Inr None
      else case process predict up of
             Inl e \<Rightarrow> Inl e
           | Inr df \<Rightarrow>
               (case view selected_type selected_cat df of
                  Inl e \<Rightarrow> Inl e
                | Inr r \<Rightarrow> Inr (Some r)))"

section \<open>Example inputs\<close>

definition example_frame :: frame where
  \<comment> \<open>an analysed table of two transactions\<close>
  "example_frame =
     \<lparr>columns = [''SMS'', ''Amount'', ''Predicted_Category'', ''Type''],
      rows = [[''SMS'' \<mapsto> Text ''paid inr 800'', ''Amount'' \<mapsto> Number (Fin 800),
               ''Predicted_Category'' \<mapsto> Text ''Food'', ''Type'' \<mapsto> Text ''Debit''],
              [''SMS'' \<mapsto> Text ''salary inr 1000'', ''Amount'' \<mapsto> Number (Fin 1000),
               ''Predicted_Category'' \<mapsto> Text ''Income'', ''Type'' \<mapsto> Text ''Credit'']]\<rparr>"

definition always_food :: "string list \<Rightarrow> string list" where
  \<comment> \<open>a classifier that answers Food for every message\<close>
  "always_food msgs = map (\<lambda>m. ''Food'') msgs"

definition upload_raw :: upload where
  "upload_raw = \<lparr>header = [''SMS''],
                  records = [[''SMS'' \<mapsto> ''  Paid INR 100 ''], [''SMS'' \<mapsto> ''no amount here'']]\<rparr>"

definition upload_without_amounts :: upload where
  "upload_without_amounts = \<lparr>header = [''Date'', ''SMS''],
      records = [[''Date'' \<mapsto> ''1 May'', ''SMS'' \<mapsto> ''Salary credited''],
                 [''Date'' \<mapsto> ''2 May'', ''SMS'' \<mapsto> ''Spent at the market'']]\<rparr>"

section \<open>The Type Tagger: debit keywords first\<close>

lemma py_in_sublist: "py_in x s = sublist x s"
  by (induction s) (simp_all add: sublist_Cons_right)

lemma list_ex_py_in: "list_ex (\<lambda>x. py_in x t) ks = (\<exists>k\<in>set ks. sublist k t)"
  by (simp add: list_ex_iff py_in_sublist)

text \<open>
  Claim C7. \<open>sublist k t\<close> says that \<open>k\<close> occurs in \<open>t\<close> as a contiguous substring
  (\<open>t = ps @ k @ ss\<close> for some \<open>ps\<close> and \<open>ss\<close>). If a debit keyword occurs in the
  lower-cased text, the tagger answers Debit, whether or not a credit keyword occurs too; if
  none does but a credit keyword occurs, it answers Credit; if neither occurs, Unknown.
\<close>

theorem detect_type_debit_first:
  "((\<exists>k\<in>set debit_keywords. sublist k (lower text)) \<longrightarrow> detect_type text = ''Debit'') \<and>
   (\<not> (\<exists>k\<in>set debit_keywords. sublist k (lower text)) \<and>
      (\<exists>k\<in>set credit_keywords. sublist k (lower text)) \<longrightarrow> detect_type text = ''Credit'') \<and>
   (\<not> (\<exists>k\<in>set debit_keywords. sublist k (lower text)) \<and>
      \<not> (\<exists>k\<in>set credit_keywords. sublist k (lower text)) \<longrightarrow> detect_type text = ''Unknown'')"
  by (simp add: detect_type_def list_ex_py_in Let_def)

theorem detect_type_debit_first_witness:
  "(\<exists>k\<in>set debit_keywords. sublist k (lower ''Salary credited but also SPENT on groceries'')) \<and>
   (\<exists>k\<in>set credit_keywords. sublist k (lower ''Salary credited but also SPENT on groceries'')) \<and>
   detect_type ''Salary credited but also SPENT on groceries'' = ''Debit'' \<and>
   \<not> (\<exists>k\<in>set debit_keywords. sublist k (lower ''Refund received'')) \<and>
   (\<exists>k\<in>set credit_keywords. sublist k (lower ''Refund received'')) \<and>
   detect_type ''Refund received'' = ''Credit'' \<and>
   \<not> (\<exists>k\<in>set debit_keywords. sublist k (lower ''otp 1234'')) \<and>
   \<not> (\<exists>k\<in>set credit_keywords. sublist k (lower ''otp 1234'')) \<and>
   detect_type ''otp 1234'' = ''Unknown''"
proof -
  have d1: "\<exists>k\<in>set debit_keywords. sublist k (lower ''Salary credited but also SPENT on groceries'')"
    by code_simp
  have c1: "\<exists>k\<in>set credit_keywords. sublist k (lower ''Salary credited but also SPENT on groceries'')"
    by code_simp
  have d2: "\<not> (\<exists>k\<in>set debit_keywords. sublist k (lower ''Refund received''))"
    by code_simp
  have c2: "\<exists>k\<in>set credit_keywords. sublist k (lower ''Refund received'')"
    by code_simp
  have d3: "\<not> (\<exists>k\<in>set debit_keywords. sublist k (lower ''otp 1234''))"
    by code_simp
  have c3: "\<not> (\<exists>k\<in>set credit_keywords. sublist k (lower ''otp 1234''))"
    by code_simp
  from d1 c1 d2 c2 d3 c3
    detect_type_debit_first [of "''Salary credited but also SPENT on groceries''"]
    detect_type_debit_first [of "''Refund received''"]
    detect_type_debit_first [of "''otp 1234''"]
  show ?thesis by blast
qed

section \<open>What the Amount Extractor returns\<close>

lemma digit_not_mark: "is_digit c \<Longrightarrow> c \<noteq> CHR '','' \<and> c \<noteq> CHR ''.'' \<and> \<not> is_space c"
  by (auto simp: is_digit_def is_space_def Let_def)

lemma comma_not_space: "\<not> is_space CHR '',''" "\<not> is_digit CHR '',''" "\<not> is_digit CHR ''.''"
  by (simp_all add: is_space_def is_digit_def Let_def)

lemma match_number_shape:
  assumes "match_number s = Some g"
  shows "\<exists>body dot. g = body @ dot \<and> body \<noteq> [] \<and> list_all is_digit_or_comma body \<and>
           (dot = [] \<or> (\<exists>frac. dot = CHR ''.'' # frac \<and> list_all is_digit frac))"
proof -
  let ?body = "takeWhile is_digit_or_comma s"
  let ?rest = "dropWhile is_digit_or_comma s"
  have b: "list_all is_digit_or_comma ?body"
    by (auto simp: list_all_iff dest: set_takeWhileD)
  have d: "list_all is_digit (takeWhile is_digit r)" for r
    by (auto simp: list_all_iff dest: set_takeWhileD)
  from assms have m:
    "(if ?body = [] then None
      else case ?rest of
             c # rest' \<Rightarrow> if c = CHR ''.'' then Some (?body @ [c] @ takeWhile is_digit rest') else Some ?body
           | [] \<Rightarrow> Some ?body) = Some g"
    unfolding match_number_def Let_def .
  then have ne: "?body \<noteq> []"
    by (cases "?body = []") simp_all
  show ?thesis
  proof (cases ?rest)
    case Nil
    from m have "g = ?body @ []"
      unfolding Nil using ne by (simp split: if_splits)
    with b ne show ?thesis by blast
  next
    case (Cons c r)
    from m have "g = ?body @ [] \<or> g = ?body @ (CHR ''.'' # takeWhile is_digit r)"
      unfolding Cons using ne by (auto split: if_splits)
    with b ne d [of r] show ?thesis by blast
  qed
qed

lemma first_some_Some:
  "first_some f xs = Some y \<Longrightarrow> \<exists>x\<in>set xs. f x = Some y"
  by (induction xs) (auto split: option.splits)

lemma first_some_not_None:
  "x \<in> set xs \<Longrightarrow> f x \<noteq> None \<Longrightarrow> first_some f xs \<noteq> None"
  by (induction xs) (auto split: option.splits)

lemma match_tail_Some:
  "match_tail s = Some g \<Longrightarrow> \<exists>s'. match_number s' = Some g"
  by (auto simp: match_tail_def split: list.splits if_splits option.splits)

lemma match_here_Some:
  "match_here s = Some g \<Longrightarrow> \<exists>s'. match_number s' = Some g"
  by (auto simp: match_here_def dest!: first_some_Some match_tail_Some split: option.splits)

lemma search_Some:
  "search s = Some g \<Longrightarrow> \<exists>s'. match_number s' = Some g"
  by (induction s) (auto dest: match_here_Some split: option.splits)

lemma filter_commas_body:
  "list_all is_digit_or_comma body \<Longrightarrow>
     filter (\<lambda>c. c \<noteq> CHR '','') body = filter is_digit body \<and> CHR ''.'' \<notin> set body"
  by (induction body) (auto simp: is_digit_or_comma_def comma_not_space dest: digit_not_mark)

lemma filter_digits_id: "list_all is_digit ds \<Longrightarrow> filter is_digit ds = ds \<and> filter (\<lambda>c. c \<noteq> CHR '','') ds = ds"
  by (induction ds) (auto dest: digit_not_mark)

lemma takeWhile_digits_point:
  "list_all is_digit ds \<Longrightarrow> takeWhile is_digit (ds @ CHR ''.'' # r) = ds \<and>
     dropWhile is_digit (ds @ CHR ''.'' # r) = CHR ''.'' # r"
  by (induction ds) (auto simp: comma_not_space)

lemma takeWhile_digits_all:
  "list_all is_digit ds \<Longrightarrow> takeWhile is_digit ds = ds \<and> dropWhile is_digit ds = []"
  by (induction ds) auto

lemma dropWhile_no_point:
  "CHR ''.'' \<notin> set body \<Longrightarrow> dropWhile (\<lambda>c. c \<noteq> CHR ''.'') (body @ r) = dropWhile (\<lambda>c. c \<noteq> CHR ''.'') r"
  by (induction body) auto

lemma py_float_digits:
  assumes "list_all is_digit ds"
  shows "py_float ds = (if ds = [] then Inl ValueError else Inr (fl (of_int (digits_value ds))))"
proof -
  from takeWhile_digits_all [OF assms]
  have t: "takeWhile is_digit ds = ds" and d: "dropWhile is_digit ds = []"
    by blast+
  show ?thesis
    unfolding py_float_def Let_def t d by simp
qed

lemma py_float_point:
  assumes "list_all is_digit ds" and "list_all is_digit fs"
  shows "py_float (ds @ CHR ''.'' # fs) =
           (if ds = [] \<and> fs = [] then Inl ValueError
            else Inr (fl (of_int (digits_value (ds @ fs)) / 10 ^ length fs)))"
proof -
  from takeWhile_digits_point [OF assms(1), of fs]
  have t: "takeWhile is_digit (ds @ CHR ''.'' # fs) = ds"
    and d: "dropWhile is_digit (ds @ CHR ''.'' # fs) = CHR ''.'' # fs"
    by blast+
  show ?thesis
    unfolding py_float_def Let_def t d using assms(2) by simp
qed

lemma py_float_of_group:
  assumes "list_all is_digit_or_comma body"
    and "dot = [] \<or> (\<exists>frac. dot = CHR ''.'' # frac \<and> list_all is_digit frac)"
  shows "py_float (filter (\<lambda>c. c \<noteq> CHR '','') (body @ dot)) =
           (if list_ex is_digit (body @ dot) then Inr (fl (literal_value (body @ dot))) else Inl ValueError)"
proof -
  let ?ds = "filter is_digit body"
  from filter_commas_body [OF assms(1)]
  have fb: "filter (\<lambda>c. c \<noteq> CHR '','') body = ?ds" and np: "CHR ''.'' \<notin> set body"
    by simp_all
  have dd: "list_all is_digit ?ds"
    by (simp add: list_all_iff)
  from assms(2) show ?thesis
  proof
    assume e: "dot = []"
    have ex: "list_ex is_digit body = (?ds \<noteq> [])"
      by (auto simp: list_ex_iff filter_empty_conv)
    have h0: "dropWhile (\<lambda>c. c \<noteq> CHR ''.'') body = []"
      using np by (auto simp: dropWhile_eq_Nil_conv)
    have v: "literal_value body = of_int (digits_value ?ds)"
      unfolding literal_value_def h0 by simp
    have "py_float ?ds = (if list_ex is_digit body then Inr (fl (literal_value body)) else Inl ValueError)"
      unfolding py_float_digits [OF dd] ex v by simp
    then show ?thesis
      by (simp add: e fb)
  next
    assume "\<exists>frac. dot = CHR ''.'' # frac \<and> list_all is_digit frac"
    then obtain frac where e: "dot = CHR ''.'' # frac" and fr: "list_all is_digit frac"
      by blast
    from filter_digits_id [OF fr]
    have ff: "filter is_digit frac = frac" "filter (\<lambda>c. c \<noteq> CHR '','') frac = frac"
      by simp_all
    have "frac \<noteq> [] \<Longrightarrow> \<exists>x\<in>set frac. is_digit x"
      using fr by (cases frac) simp_all
    then have ex: "list_ex is_digit (body @ dot) = (\<not> (?ds = [] \<and> frac = []))"
      by (auto simp: e list_ex_iff filter_empty_conv comma_not_space)
    have h1: "dropWhile (\<lambda>c. c \<noteq> CHR ''.'') (body @ dot) = CHR ''.'' # frac"
      using dropWhile_no_point [OF np, of dot] by (simp add: e)
    have h2: "filter is_digit (body @ dot) = ?ds @ frac"
      by (simp add: e ff comma_not_space)
    have v: "literal_value (body @ dot) = of_int (digits_value (?ds @ frac)) / 10 ^ length frac"
      unfolding literal_value_def h1 h2 by (simp add: ff comma_not_space)
    have f: "filter (\<lambda>c. c \<noteq> CHR '','') (body @ dot) = ?ds @ CHR ''.'' # frac"
      by (simp add: e fb ff)
    show ?thesis
      unfolding f py_float_point [OF dd fr] ex v by simp
  qed
qed

text \<open>
  What the extractor returns, for every text: without a match nothing; with a match the
  double nearest to the value of group 1 when group 1 holds a digit, and \<open>ValueError\<close>
  when it holds none.
\<close>

theorem extract_amount_cases:
  "extract_amount text =
     (case search text of
        None \<Rightarrow> Inr None
      | Some g \<Rightarrow> if list_ex is_digit g then Inr (Some (fl (literal_value g))) else Inl ValueError)"
proof (cases "search text")
  case None
  then show ?thesis by (simp add: extract_amount_def)
next
  case (Some g)
  from search_Some [OF Some] obtain s' where "match_number s' = Some g" by blast
  from match_number_shape [OF this] obtain body dot where
    g: "g = body @ dot" and b: "list_all is_digit_or_comma body"
    and d: "dot = [] \<or> (\<exists>frac. dot = CHR ''.'' # frac \<and> list_all is_digit frac)"
    by blast
  have "extract_amount text =
          (case py_float (filter (\<lambda>c. c \<noteq> CHR '','') (body @ dot)) of
             Inl e \<Rightarrow> Inl e | Inr v \<Rightarrow> Inr (Some v))"
    unfolding extract_amount_def Some g by simp
  then show ?thesis
    unfolding py_float_of_group [OF b d] Some g by simp
qed


text \<open>
  A marker in any letter case, followed by at most one white space character and a digit or
  a comma, is always matched: the extractor then never answers that there is no value.
\<close>

lemma match_ci_variant:
  "lower m = k \<Longrightarrow> lower k = k \<Longrightarrow> match_ci k (m @ r) = Some r"
proof (induction k arbitrary: m)
  case Nil
  then show ?case by (simp add: lower_def)
next
  case (Cons p ps)
  then obtain c cs where m: "m = c # cs" and c: "lower_char c = p" and cs: "lower cs = ps"
    by (auto simp: lower_def)
  from Cons.prems(2) have p: "lower_char p = p" and ps: "lower ps = ps"
    by (simp_all add: lower_def)
  from Cons.IH [OF cs ps] c p show ?case
    by (simp add: m)
qed

lemma markers_lower: "k \<in> set markers \<Longrightarrow> lower k = k"
proof -
  have "lower ''inr'' = ''inr''" "lower ''aed'' = ''aed''" "lower rupee = rupee"
    by code_simp+
  then show "k \<in> set markers \<Longrightarrow> lower k = k"
    by (auto simp: markers_def)
qed

lemma match_number_start:
  "is_digit c \<or> c = CHR '','' \<Longrightarrow> match_number (c # rest) \<noteq> None"
  by (auto simp: match_number_def Let_def is_digit_or_comma_def split: list.splits)

lemma match_tail_start:
  assumes "ws = [] \<or> (\<exists>b. ws = [b] \<and> is_space b)" and "is_digit c \<or> c = CHR '',''"
  shows "match_tail (ws @ c # rest) \<noteq> None"
proof -
  note n = match_number_start [OF assms(2), of rest]
  from assms(1) show ?thesis
  proof
    assume "ws = []"
    with n show ?thesis
      by (auto simp: match_tail_def split: option.splits)
  next
    assume "\<exists>b. ws = [b] \<and> is_space b"
    with n show ?thesis
      by (auto simp: match_tail_def split: option.splits)
  qed
qed

lemma search_of_match_here: "match_here s \<noteq> None \<Longrightarrow> search s \<noteq> None"
  by (cases s) (auto split: option.splits)

lemma search_append: "search s \<noteq> None \<Longrightarrow> search (pre @ s) \<noteq> None"
  by (induction pre) (auto split: option.splits)

theorem extract_amount_on_marked_amount:
  assumes "text = pre @ m @ ws @ c # rest"
    and "lower m \<in> set markers"
    and "ws = [] \<or> (\<exists>b. ws = [b] \<and> is_space b)"
    and "is_digit c \<or> c = CHR '',''"
  shows "\<exists>g. search text = Some g \<and>
             extract_amount text =
               (if list_ex is_digit g then Inr (Some (fl (literal_value g))) else Inl ValueError)"
proof -
  have "match_ci (lower m) (m @ ws @ c # rest) = Some (ws @ c # rest)"
    by (rule match_ci_variant [OF refl markers_lower [OF assms(2)]])
  with match_tail_start [OF assms(3,4), of rest]
  have "(case match_ci (lower m) (m @ ws @ c # rest) of Some r \<Rightarrow> match_tail r | None \<Rightarrow> None) \<noteq> None"
    by simp
  with assms(2) have "match_here (m @ ws @ c # rest) \<noteq> None"
    unfolding match_here_def by (rule first_some_not_None)
  then have "search text \<noteq> None"
    unfolding assms(1) by (intro search_append search_of_match_here)
  then obtain g where g: "search text = Some g"
    by blast
  with extract_amount_cases [of "text"] show ?thesis
    by simp
qed

theorem extract_amount_on_marked_amount_witness:
  "''paid INR 1,234.50 today'' = ''paid '' @ ''INR'' @ '' '' @ CHR ''1'' # '',234.50 today'' \<and>
   lower ''INR'' \<in> set markers \<and> is_space CHR '' '' \<and> is_digit CHR ''1'' \<and>
   search ''paid INR 1,234.50 today'' = Some ''1,234.50'' \<and>
   literal_value ''1,234.50'' = 2469 / 2 \<and>
   extract_amount ''paid INR 1,234.50 today'' = Inr (Some (Fin (2469 / 2)))"
proof -
  have t: "''paid INR 1,234.50 today'' = ''paid '' @ ''INR'' @ '' '' @ CHR ''1'' # '',234.50 today''"
    by simp
  have m: "lower ''INR'' \<in> set markers"
    by code_simp
  have b: "is_space CHR '' ''" and d: "is_digit CHR ''1''"
    by code_simp+
  have w: "'' '' = [] \<or> (\<exists>b. '' '' = [b] \<and> is_space b)"
    using b by simp
  have s: "search ''paid INR 1,234.50 today'' = Some ''1,234.50''"
    by code_simp
  have v: "literal_value ''1,234.50'' = 2469 / 2"
    by code_simp
  have f: "fl (2469 / 2) = Fin (2469 / 2)"
    by code_simp
  have x: "list_ex is_digit ''1,234.50''"
    by code_simp
  have fv: "fl (literal_value ''1,234.50'') = Fin (2469 / 2)"
    unfolding v by (rule f)
  from extract_amount_on_marked_amount [OF t m w disjI1 [OF d]] obtain g where
    g: "search ''paid INR 1,234.50 today'' = Some g"
    and e: "extract_amount ''paid INR 1,234.50 today'' =
              (if list_ex is_digit g then Inr (Some (fl (literal_value g))) else Inl ValueError)"
    by blast
  from g s have geq: "g = ''1,234.50''"
    by (metis option.inject)
  from e have "extract_amount ''paid INR 1,234.50 today'' = Inr (Some (Fin (2469 / 2)))"
    by (simp only: geq x if_True fv)
  with t m b d s v show ?thesis by blast
qed

section \<open>The Amount Extractor on a literal without a digit\<close>

text \<open>
  Claim C6. The extractor is not total: in \<open>inr ,\<close> the pattern matches with the single
  comma as group 1 (\<open>[\d,]+\<close> asks for digits or commas), the comma is removed, and
  \<open>float\<close> of the empty text raises \<open>ValueError\<close>.
\<close>

theorem extract_amount_raises_on_comma:
  "extract_amount ''inr ,'' = Inl ValueError"
  by code_simp

text \<open>
  Claim C5. The text \<open>inr , inr 500\<close> contains the marker followed by a blank and the
  numeric literal 500, which the extractor reads correctly when it stands alone; here the
  leftmost match of the pattern is \<open>inr ,\<close>, and the call raises \<open>ValueError\<close> in place of
  returning an amount. The example of the claim does evaluate to 1234.5.
\<close>

theorem extract_amount_first_match_without_digit:
  "extract_amount ''paid inr 1,234.50 today'' = Inr (Some (Fin (2469 / 2))) \<and>
   extract_amount ''inr 500'' = Inr (Some (Fin 500)) \<and>
   extract_amount ''inr , inr 500'' = Inl ValueError"
  by code_simp

section \<open>The pipeline on a table with such a row\<close>

text \<open>
  Claim C1. On the table of the two messages \<open>Paid INR 5\<close> and \<open>inr ,\<close> one row has an
  extractable amount, so the claim promises one output row; the exception of the second
  row ends the pipeline at line 158 and there is no output table, whatever the classifier.
\<close>

theorem process_raises_on_comma_row:
  "process predict
     \<lparr>header = [''SMS''], records = [[''SMS'' \<mapsto> ''Paid INR 5''], [''SMS'' \<mapsto> ''inr ,'']]\<rparr>
     = Inl ValueError"
proof -
  have e1: "extract_amount (normalise (Some ''Paid INR 5'')) = Inr (Some (Fin 5))"
    by code_simp
  have e2: "extract_amount (normalise (Some ''inr ,'')) = Inl ValueError"
    by code_simp
  show ?thesis
    by (simp add: process_def preprocess_def sms_column_def column_def text_of_def e1 e2)
qed

section \<open>The export\<close>

text \<open>
  Claim C2. For an upload with the single column SMS and the single message
  \<open>paid inr 100\<close>, a classifier that answers Food and both filters at their defaults, the
  table on the screen has the columns SMS, Amount, Type, Predicted_Category (line 286 selects
  them), while the downloaded file has all the columns of the frame in the order of their
  creation: SMS, Amount, Predicted_Category, Type (line 288 serialises the frame as it is).
\<close>

theorem download_has_frame_columns:
  "dashboard (map (\<lambda>s. ''Food''))
     \<lparr>header = [''SMS''], records = [[''SMS'' \<mapsto> ''paid inr 100'']]\<rparr> [''Debit''] [''Food'']
     = Inr (Some
         \<lparr>key = \<lparr>total_spent = Fin 100, total_credited = Fin 0, top_cat = ''Food''\<rparr>,
          advice = [Info ReduceFoodDeliveries],
          table = Some ([''SMS'', ''Amount'', ''Type'', ''Predicted_Category''],
                        [[Some (Text ''paid inr 100''), Some (Number (Fin 100)),
                          Some (Text ''Debit''), Some (Text ''Food'')]]),
          download = Some ([''SMS'', ''Amount'', ''Predicted_Category'', ''Type''],
                        [[Some (Text ''paid inr 100''), Some (Number (Fin 100)),
                          Some (Text ''Food''), Some (Text ''Debit'')]])\<rparr>)"
  by code_simp

section \<open>The key metrics of an empty selection\<close>

text \<open>
  Claim C3. When the filters leave no row, the key metrics are 0 spent, 0 credited and the
  top category \<open>N/A\<close>, and the whole view is computed without an exception: it shows the
  metrics and the notice that no transaction matches.
\<close>

theorem empty_selection_metrics:
  assumes "rows (apply_filters selected_type selected_cat df) = []"
  shows "key_metrics (apply_filters selected_type selected_cat df) =
           Inr \<lparr>total_spent = Fin 0, total_credited = Fin 0, top_cat = ''N/A''\<rparr> \<and>
         view selected_type selected_cat df =
           Inr \<lparr>key = \<lparr>total_spent = Fin 0, total_credited = Fin 0, top_cat = ''N/A''\<rparr>,
                advice = [Warning NoMatch], table = None, download = None\<rparr>"
  using assms
  by (simp add: view_def key_metrics_def empty_def total_of_def amounts_of_def fsum_def)

theorem empty_selection_metrics_witness:
  "rows (apply_filters [] [''Food'', ''Income''] example_frame) = [] \<and>
   key_metrics (apply_filters [] [''Food'', ''Income''] example_frame) =
     Inr \<lparr>total_spent = Fin 0, total_credited = Fin 0, top_cat = ''N/A''\<rparr> \<and>
   view [] [''Food'', ''Income''] example_frame =
     Inr \<lparr>key = \<lparr>total_spent = Fin 0, total_credited = Fin 0, top_cat = ''N/A''\<rparr>,
          advice = [Warning NoMatch], table = None, download = None\<rparr>"
proof -
  have h: "rows (apply_filters [] [''Food'', ''Income''] example_frame) = []"
    by (simp add: apply_filters_def isin_def example_frame_def)
  from h empty_selection_metrics [OF h] show ?thesis by simp
qed

section \<open>The Savings Advisor\<close>

lemma category_tip_cases:
  "category_tip label \<in> {Info ReduceFoodDeliveries, Info ShoppingCap, Info AuditSubscriptions,
                           Info OffPeakTrips, Info KeepTracking}"
  by (simp add: category_tip_def)

lemma category_tip_is_info: "\<exists>m. category_tip label = Info m"
  by (simp add: category_tip_def)

lemma savings_advisor_shape:
  "savings_advisor spent credited label =
     (if fgt credited (Fin 0)
      then [Progress (fmin (fdiv spent credited) (Fin 1)), Caption (fmul (fdiv spent credited) (Fin 100)),
            ratio_band spent credited, category_tip label]
      else [category_tip label])"
  by (simp add: savings_advisor_def spend_ratio_def)


lemma progress_in_advisor:
  "(Progress x \<in> set (savings_advisor spent credited label)) =
     (fgt credited (Fin 0) \<and> x = fmin (fdiv spent credited) (Fin 1))"
  using category_tip_is_info [of label]
  by (auto simp: savings_advisor_def spend_ratio_def ratio_band_def)

lemma caption_in_advisor:
  "(Caption x \<in> set (savings_advisor spent credited label)) =
     (fgt credited (Fin 0) \<and> x = fmul (fdiv spent credited) (Fin 100))"
  using category_tip_is_info [of label]
  by (auto simp: savings_advisor_def spend_ratio_def ratio_band_def)

lemma view_advice_shape:
  assumes "view selected_type selected_cat df = Inr r"
  shows "advice r = [Warning NoMatch] \<or>
         advice r = savings_advisor (total_spent (key r)) (total_credited (key r)) (top_cat (key r))"
  using assms by (auto simp: view_def Let_def split: sum.splits if_splits)

text \<open>
  Claim C4. The ratio of lines 258-259 exists exactly when the credited total is greater
  than 0, and then it is the quotient by a divisor that is not 0; with a credited total of 0
  there is no ratio. In every view the progress bar and the caption, which show the ratio,
  appear only when the credited total of the filtered table is greater than 0; when it is 0
  neither they nor any of the three band messages appear.
\<close>

theorem ratio_only_when_credited_positive:
  assumes "view selected_type selected_cat df = Inr r"
  shows "(spend_ratio spent credited \<noteq> None) = fgt credited (Fin 0) \<and>
         spend_ratio spent (Fin 0) = None \<and>
         (\<forall>q. spend_ratio spent credited = Some q \<longrightarrow> credited \<noteq> Fin 0 \<and> q = fdiv spent credited) \<and>
         ((\<exists>x. Progress x \<in> set (advice r) \<or> Caption x \<in> set (advice r)) \<longrightarrow>
            fgt (total_credited (key r)) (Fin 0)) \<and>
         (total_credited (key r) = Fin 0 \<longrightarrow>
            (\<forall>x. Progress x \<notin> set (advice r) \<and> Caption x \<notin> set (advice r)) \<and>
            Warning Over80 \<notin> set (advice r) \<and> Info Between60And80 \<notin> set (advice r) \<and>
            Success HealthyRatio \<notin> set (advice r))"
proof -
  have a: "(spend_ratio spent credited \<noteq> None) = fgt credited (Fin 0)"
    by (simp add: spend_ratio_def)
  have b: "spend_ratio spent (Fin 0) = None"
    by (simp add: spend_ratio_def)
  have c: "\<forall>q. spend_ratio spent credited = Some q \<longrightarrow> credited \<noteq> Fin 0 \<and> q = fdiv spent credited"
    by (auto simp: spend_ratio_def split: if_splits)
  note shape = view_advice_shape [OF assms]
  have d: "(\<exists>x. Progress x \<in> set (advice r) \<or> Caption x \<in> set (advice r)) \<longrightarrow>
            fgt (total_credited (key r)) (Fin 0)"
    using shape by (auto simp: progress_in_advisor caption_in_advisor)
  have e: "total_credited (key r) = Fin 0 \<longrightarrow>
            (\<forall>x. Progress x \<notin> set (advice r) \<and> Caption x \<notin> set (advice r)) \<and>
            Warning Over80 \<notin> set (advice r) \<and> Info Between60And80 \<notin> set (advice r) \<and>
            Success HealthyRatio \<notin> set (advice r)"
    using shape category_tip_cases [of "top_cat (key r)"]
    by (auto simp: savings_advisor_shape)
  from a b c d e show ?thesis by blast
qed

theorem ratio_only_when_credited_positive_witness:
  "view [''Debit''] [''Food'', ''Income''] example_frame =
     Inr \<lparr>key = \<lparr>total_spent = Fin 800, total_credited = Fin 0, top_cat = ''Food''\<rparr>,
          advice = [Info ReduceFoodDeliveries],
          table = Some ([''SMS'', ''Amount'', ''Type'', ''Predicted_Category''],
                        [[Some (Text ''paid inr 800''), Some (Number (Fin 800)),
                          Some (Text ''Debit''), Some (Text ''Food'')]]),
          download = Some ([''SMS'', ''Amount'', ''Predicted_Category'', ''Type''],
                        [[Some (Text ''paid inr 800''), Some (Number (Fin 800)),
                          Some (Text ''Food''), Some (Text ''Debit'')]])\<rparr> \<and>
   spend_ratio (Fin 800) (Fin 0) = None \<and>
   spend_ratio (Fin 800) (Fin 1000) = Some (fdiv (Fin 800) (Fin 1000)) \<and>
   fgt (Fin 1000) (Fin 0)"
proof -
  let ?r = "\<lparr>key = \<lparr>total_spent = Fin 800, total_credited = Fin 0, top_cat = ''Food''\<rparr>,
          advice = [Info ReduceFoodDeliveries],
          table = Some ([''SMS'', ''Amount'', ''Type'', ''Predicted_Category''],
                        [[Some (Text ''paid inr 800''), Some (Number (Fin 800)),
                          Some (Text ''Debit''), Some (Text ''Food'')]]),
          download = Some ([''SMS'', ''Amount'', ''Predicted_Category'', ''Type''],
                        [[Some (Text ''paid inr 800''), Some (Number (Fin 800)),
                          Some (Text ''Food''), Some (Text ''Debit'')]])\<rparr>"
  have v: "view [''Debit''] [''Food'', ''Income''] example_frame = Inr ?r"
    by code_simp
  have g: "fgt (Fin 1000) (Fin 0)"
    by simp
  from ratio_only_when_credited_positive [OF v, of "Fin 800" "Fin 1000"] g
  have "spend_ratio (Fin 800) (Fin 0) = None"
    and "spend_ratio (Fin 800) (Fin 1000) = Some (fdiv (Fin 800) (Fin 1000))"
    by auto
  with v g show ?thesis by simp
qed



section \<open>The message text in the outputs\<close>

subsection \<open>Cells of a frame through the steps of the pipeline\<close>

lemma length_set_cells: "length (set_cells c rs vs) = length rs"
  by (induction c rs vs rule: set_cells.induct) simp_all

lemma set_cells_other:
  "k \<noteq> c \<Longrightarrow> map (\<lambda>r. r k) (set_cells c rs vs) = map (\<lambda>r. r k) rs"
  by (induction c rs vs rule: set_cells.induct) simp_all

lemma set_cells_same:
  "length vs = length rs \<Longrightarrow> map (\<lambda>r. r c) (set_cells c rs vs) = vs"
  by (induction c rs vs rule: set_cells.induct) simp_all

lemma column_set_series_other:
  "k \<noteq> c \<Longrightarrow> column k (set_series c vs df) = column k df"
  by (simp add: column_def set_series_def set_cells_other)

lemma column_set_series_same:
  "length vs = length (rows df) \<Longrightarrow> column c (set_series c vs df) = vs"
  by (simp add: column_def set_series_def set_cells_same)

lemma length_rows_set_series: "length (rows (set_series c vs df)) = length (rows df)"
  by (simp add: set_series_def length_set_cells)

lemma column_set_scalar_other:
  "k \<noteq> c \<Longrightarrow> column k (set_scalar c v df) = column k df"
  by (simp add: column_def set_scalar_def)

lemma column_set_scalar_same:
  "column c (set_scalar c v df) = map (\<lambda>r. Some v) (rows df)"
  by (simp add: column_def set_scalar_def)

lemma length_column: "length (column c df) = length (rows df)"
  by (simp add: column_def)

lemma column_preprocess:
  "column ''SMS'' (preprocess up) = map (\<lambda>u. Some (Text (normalise (u ''SMS'')))) (records up)"
  by (simp add: column_def preprocess_def)

lemma sms_column_preprocess:
  "sms_column (preprocess up) = map (\<lambda>u. normalise (u ''SMS'')) (records up)"
  by (simp add: sms_column_def column_preprocess text_of_def comp_def)

lemma series_apply_Inr_D:
  "series_apply f ts = Inr vs \<Longrightarrow> map f ts = map Inr vs"
  by (induction ts arbitrary: vs) (auto split: sum.splits)

lemma series_apply_Inr_I:
  "map f ts = map Inr vs \<Longrightarrow> series_apply f ts = Inr vs"
proof (induction ts arbitrary: vs)
  case Nil
  then show ?case by simp
next
  case (Cons t ts)
  then obtain v vs1 where "vs = v # vs1" "f t = Inr v" "map f ts = map Inr vs1"
    by (cases vs) auto
  with Cons.IH [of vs1] show ?case by simp
qed

lemma series_apply_Inl:
  "series_apply f ts = Inl e \<Longrightarrow> \<exists>t\<in>set ts. f t = Inl e"
  by (induction ts) (auto split: sum.splits)

lemma series_apply_total:
  "(\<forall>t\<in>set ts. \<exists>v. f t = Inr v) \<Longrightarrow> \<exists>vs. series_apply f ts = Inr vs"
  by (induction ts) (auto split: sum.splits)

lemma subseq_filter_map:
  "map g rs = map h us \<Longrightarrow> \<exists>us'. subseq us' us \<and> map g (filter P rs) = map h us'"
proof (induction rs arbitrary: us)
  case Nil
  then show ?case by auto
next
  case (Cons r rs)
  then obtain u us1 where us: "us = u # us1" and hd: "g r = h u" and tl: "map g rs = map h us1"
    by (cases us) auto
  from Cons.IH [OF tl] obtain us2 where s: "subseq us2 us1" and m: "map g (filter P rs) = map h us2"
    by blast
  show ?case
  proof (cases "P r")
    case True
    with s m hd us have "subseq (u # us2) us \<and> map g (filter P (r # rs)) = map h (u # us2)"
      by simp
    then show ?thesis by blast
  next
    case False
    with s m us have "subseq us2 us \<and> map g (filter P (r # rs)) = map h us2"
      by (simp add: list_emb_Cons)
    then show ?thesis by blast
  qed
qed

lemma column_filter_subseq:
  assumes "column k df = map h us"
  shows "\<exists>us'. subseq us' us \<and> column k (df\<lparr>rows := filter P (rows df)\<rparr>) = map h us'"
  using subseq_filter_map [of "\<lambda>r. r k" "rows df" h us P] assms
  by (simp add: column_def)

lemma column_amount_handling:
  assumes "column ''SMS'' df = map h us"
  shows "\<exists>us'. subseq us' us \<and> column ''SMS'' (amount_handling df) = map h us'"
proof (cases "list_all (\<lambda>r. r ''Amount'' = None) (rows df)")
  case True
  then have "column ''SMS'' (amount_handling df) = map h us"
    using assms by (simp add: amount_handling_def column_set_scalar_other)
  then show ?thesis by blast
next
  case False
  then show ?thesis
    using column_filter_subseq [OF assms, of "\<lambda>r. r ''Amount'' \<noteq> None"]
    by (simp add: amount_handling_def dropna_def)
qed

lemma process_sms_column:
  assumes "process predict up = Inr df"
  shows "\<exists>us. subseq us (records up) \<and>
              column ''SMS'' df = map (\<lambda>u. Some (Text (normalise (u ''SMS'')))) us"
proof -
  let ?h = "\<lambda>u. Some (Text (normalise (u ''SMS'')))"
  from assms obtain amounts where
    a: "series_apply extract_amount (sms_column (preprocess up)) = Inr amounts"
    by (auto simp: process_def Let_def split: sum.splits)
  define df2 where "df2 = set_series ''Amount'' (map (map_option Number) amounts) (preprocess up)"
  define df3 where "df3 = amount_handling df2"
  from assms a obtain df4 where
    b: "set_array ''Predicted_Category'' (map (\<lambda>l. Some (Text l)) (predict (sms_column df3))) df3 = Inr df4"
    and c: "df = set_series ''Type'' (map (\<lambda>t. Some (Text (detect_type t))) (sms_column df4)) df4"
    by (auto simp: process_def Let_def df2_def df3_def split: sum.splits)
  have "column ''SMS'' df2 = map ?h (records up)"
    by (simp add: df2_def column_set_series_other column_preprocess)
  from column_amount_handling [OF this] obtain us where
    s: "subseq us (records up)" and m: "column ''SMS'' df3 = map ?h us"
    unfolding df3_def by blast
  from b have "df4 = set_series ''Predicted_Category'' (map (\<lambda>l. Some (Text l)) (predict (sms_column df3))) df3"
    by (simp add: set_array_def split: if_splits)
  then have "column ''SMS'' df4 = map ?h us"
    using m by (simp add: column_set_series_other)
  then have "column ''SMS'' df = map ?h us"
    using c by (simp add: column_set_series_other)
  with s show ?thesis by blast
qed


subsection \<open>Columns\<close>

lemma set_add_column: "set (add_column c cs) = insert c (set cs)"
  by (auto simp: add_column_def)

lemma columns_amount_handling:
  "''Amount'' \<in> set (columns df) \<Longrightarrow> columns (amount_handling df) = columns df"
  by (simp add: amount_handling_def set_scalar_def dropna_def add_column_def)

lemma process_columns:
  assumes "process predict up = Inr df"
  shows "columns df =
           add_column ''Type'' (add_column ''Predicted_Category'' (add_column ''Amount'' (header up)))"
proof -
  from assms obtain amounts where
    a: "series_apply extract_amount (sms_column (preprocess up)) = Inr amounts"
    by (auto simp: process_def Let_def split: sum.splits)
  define df3 where
    "df3 = amount_handling (set_series ''Amount'' (map (map_option Number) amounts) (preprocess up))"
  from assms a obtain df4 where
    b: "set_array ''Predicted_Category'' (map (\<lambda>l. Some (Text l)) (predict (sms_column df3))) df3 = Inr df4"
    and c: "df = set_series ''Type'' (map (\<lambda>t. Some (Text (detect_type t))) (sms_column df4)) df4"
    by (auto simp: process_def Let_def df3_def split: sum.splits)
  have "columns df3 = add_column ''Amount'' (header up)"
    by (simp add: df3_def columns_amount_handling set_series_def set_add_column preprocess_def)
  moreover from b have "columns df4 = add_column ''Predicted_Category'' (columns df3)"
    by (auto simp: set_array_def set_series_def split: if_splits)
  ultimately show ?thesis
    using c by (simp add: set_series_def)
qed

lemma nth_header_field:
  "c \<in> set cs \<Longrightarrow> map r cs ! length (takeWhile (\<lambda>h. h \<noteq> c) cs) = r c"
  by (induction cs) auto

lemma csv_column_to_csv:
  "c \<in> set (columns df) \<Longrightarrow> csv_column c (to_csv df) = column c df"
  by (simp add: csv_column_def to_csv_def column_def nth_header_field)

lemma column_select_columns:
  "select_columns cs df = Inr shown \<Longrightarrow> c \<in> set cs \<Longrightarrow>
     column c shown = column c df \<and> columns shown = cs"
  by (auto simp: select_columns_def column_def split: if_splits)

lemma view_files:
  assumes "view selected_type selected_cat df = Inr r"
    and "table r = Some f \<or> download r = Some f"
    and "''SMS'' \<in> set (columns df)"
  shows "csv_column ''SMS'' f = column ''SMS'' (apply_filters selected_type selected_cat df)"
proof -
  let ?fdf = "apply_filters selected_type selected_cat df"
  from assms(1,2) obtain m shown where
    sel: "select_columns [''SMS'', ''Amount'', ''Type'', ''Predicted_Category''] ?fdf = Inr shown"
    and r: "table r = Some (to_csv shown)" "download r = Some (to_csv ?fdf)"
    by (auto simp: view_def Let_def split: sum.splits if_splits)
  have cols: "''SMS'' \<in> set (columns ?fdf)"
    using assms(3) by (simp add: apply_filters_def)
  from column_select_columns [OF sel, of "''SMS''"]
  have sh: "column ''SMS'' shown = column ''SMS'' ?fdf" "''SMS'' \<in> set (columns shown)"
    by simp_all
  from assms(2) r show ?thesis
    using csv_column_to_csv [OF cols] csv_column_to_csv [OF sh(2)] sh(1) by auto
qed

text \<open>
  Claim C9. Every file the view produces, the table on the screen and the download, holds
  in its column SMS the normalised messages (lower-cased, then stripped) of a subsequence of
  the uploaded records, in their order: the rows that the amount handling and the filters
  kept. So wherever the raw text of a record differs from its normalisation, the SMS field
  written for it differs from the uploaded text.
\<close>

theorem exported_sms_is_normalised:
  assumes "dashboard predict up selected_type selected_cat = Inr (Some r)"
    and "table r = Some f \<or> download r = Some f"
  shows "\<exists>us. subseq us (records up) \<and>
           list_all2 (\<lambda>u c. c = Some (Text (strip (lower (astype_str (u ''SMS''))))) \<and>
                        (\<forall>raw. u ''SMS'' = Some raw \<and> strip (lower raw) \<noteq> raw \<longrightarrow> c \<noteq> Some (Text raw)))
             us (csv_column ''SMS'' f)"
proof -
  let ?h = "\<lambda>u. Some (Text (normalise (u ''SMS'')))"
  from assms(1) obtain df where
    sms: "''SMS'' \<in> set (header up)" and p: "process predict up = Inr df"
    and v: "view selected_type selected_cat df = Inr r"
    by (auto simp: dashboard_def split: if_splits sum.splits)
  have cols: "''SMS'' \<in> set (columns df)"
    using sms by (simp add: process_columns [OF p] set_add_column)
  from process_sms_column [OF p] obtain us where
    s1: "subseq us (records up)" and c1: "column ''SMS'' df = map ?h us"
    by blast
  from column_filter_subseq [OF c1] obtain us' where
    s2: "subseq us' us"
    and c2: "column ''SMS'' (apply_filters selected_type selected_cat df) = map ?h us'"
    unfolding apply_filters_def by blast
  have f: "csv_column ''SMS'' f = map ?h us'"
    using view_files [OF v assms(2) cols] c2 by simp
  have "list_all2 (\<lambda>u c. c = Some (Text (strip (lower (astype_str (u ''SMS''))))) \<and>
                        (\<forall>raw. u ''SMS'' = Some raw \<and> strip (lower raw) \<noteq> raw \<longrightarrow> c \<noteq> Some (Text raw)))
             us' (map ?h us')"
  proof -
    have "?h u = Some (Text (strip (lower (astype_str (u ''SMS'')))))" for u
      by (simp add: normalise_def)
    moreover have "?h u \<noteq> Some (Text raw)" if "u ''SMS'' = Some raw" "strip (lower raw) \<noteq> raw" for u raw
      using that by (simp add: normalise_def astype_str_def)
    ultimately show ?thesis
      unfolding list_all2_map2 list_all2_same by blast
  qed
  with f subseq_order.order_trans [OF s2 s1] show ?thesis by auto
qed


theorem exported_sms_is_normalised_witness:
  "(\<exists>r. dashboard always_food upload_raw [''Debit''] [''Food''] = Inr (Some r) \<and>
        download r = Some ([''SMS'', ''Amount'', ''Predicted_Category'', ''Type''],
                           [[Some (Text ''paid inr 100''), Some (Number (Fin 100)),
                             Some (Text ''Food''), Some (Text ''Debit'')]])) \<and>
   (\<exists>us. subseq us (records upload_raw) \<and>
      list_all2 (\<lambda>u c. c = Some (Text (strip (lower (astype_str (u ''SMS''))))) \<and>
                   (\<forall>raw. u ''SMS'' = Some raw \<and> strip (lower raw) \<noteq> raw \<longrightarrow> c \<noteq> Some (Text raw)))
        us (csv_column ''SMS'' ([''SMS'', ''Amount'', ''Predicted_Category'', ''Type''],
                           [[Some (Text ''paid inr 100''), Some (Number (Fin 100)),
                             Some (Text ''Food''), Some (Text ''Debit'')]]))) \<and>
   csv_column ''SMS'' ([''SMS'', ''Amount'', ''Predicted_Category'', ''Type''],
                       [[Some (Text ''paid inr 100''), Some (Number (Fin 100)),
                         Some (Text ''Food''), Some (Text ''Debit'')]])
     = [Some (Text ''paid inr 100'')] \<and>
   strip (lower ''  Paid INR 100 '') \<noteq> ''  Paid INR 100 ''"
proof -
  let ?f = "([''SMS'', ''Amount'', ''Predicted_Category'', ''Type''],
             [[Some (Text ''paid inr 100''), Some (Number (Fin 100)),
               Some (Text ''Food''), Some (Text ''Debit'')]])"
  let ?r = "\<lparr>key = \<lparr>total_spent = Fin 100, total_credited = Fin 0, top_cat = ''Food''\<rparr>,
            advice = [Info ReduceFoodDeliveries],
            table = Some ([''SMS'', ''Amount'', ''Type'', ''Predicted_Category''],
                          [[Some (Text ''paid inr 100''), Some (Number (Fin 100)),
                            Some (Text ''Debit''), Some (Text ''Food'')]]),
            download = Some ?f\<rparr>"
  have d: "dashboard always_food upload_raw [''Debit''] [''Food''] = Inr (Some ?r)"
    by code_simp
  have dl: "table ?r = Some ?f \<or> download ?r = Some ?f"
    by simp
  note e = exported_sms_is_normalised [OF d dl]
  have c: "csv_column ''SMS'' ?f = [Some (Text ''paid inr 100'')]"
    by code_simp
  have n: "strip (lower ''  Paid INR 100 '') \<noteq> ''  Paid INR 100 ''"
    by code_simp
  have "\<exists>r. dashboard always_food upload_raw [''Debit''] [''Food''] = Inr (Some r) \<and> download r = Some ?f"
    using d by simp
  with e c n show ?thesis by blast
qed

section \<open>A table without any amount\<close>

lemma series_apply_const:
  assumes "\<forall>t\<in>set ts. f t = Inr v"
  shows "series_apply f ts = Inr (map (\<lambda>t. v) ts)"
  using assms by (intro series_apply_Inr_I) simp

lemma list_all_missing:
  "list_all (\<lambda>r. r c = None) (rows df) = (\<forall>x\<in>set (column c df). x = None)"
  by (auto simp: column_def list_all_iff)

lemma cell_in_column: "r \<in> set (rows df) \<Longrightarrow> r c \<in> set (column c df)"
  by (simp add: column_def)

lemma fsum_zeros: "\<forall>x\<in>set xs. x = Fin 0 \<Longrightarrow> fsum xs = Fin 0"
proof -
  have "\<forall>x\<in>set xs. x = Fin 0 \<Longrightarrow> foldl fadd (Fin 0) xs = Fin 0"
    by (induction xs) (simp_all add: fl_def)
  then show "\<forall>x\<in>set xs. x = Fin 0 \<Longrightarrow> fsum xs = Fin 0"
    by (simp add: fsum_def)
qed

lemma amounts_of_zeros:
  "\<forall>r\<in>set rs. r ''Amount'' = Some (Number (Fin 0)) \<Longrightarrow> \<forall>x\<in>set (amounts_of rs). x = Fin 0"
  by (induction rs) (auto simp: amounts_of_def)

lemma total_of_zeros:
  assumes "\<forall>r\<in>set (rows df). r ''Amount'' = Some (Number (Fin 0))"
  shows "total_of ty df = Fin 0"
  unfolding total_of_def
  by (rule fsum_zeros, rule amounts_of_zeros) (use assms in auto)

lemma groupby_sum_zeros:
  assumes "\<forall>r\<in>set (rows df). r ''Amount'' = Some (Number (Fin 0))"
  shows "\<forall>kv\<in>set (groupby_sum df). snd kv = Fin 0"
proof -
  have "fsum (amounts_of (filter P (rows df))) = Fin 0" for P
    by (rule fsum_zeros, rule amounts_of_zeros) (use assms in auto)
  then show ?thesis by (auto simp: groupby_sum_def)
qed

lemma texts_nonempty:
  assumes "r \<in> set (rows df)" and "r c = Some (Text l)"
  shows "texts c df \<noteq> []"
  using assms by (auto simp: texts_def intro!: bexI [of _ r])

lemma groupby_sum_nonempty:
  assumes "r \<in> set (rows df)" and "r ''Predicted_Category'' = Some (Text l)"
  shows "groupby_sum df \<noteq> []"
proof -
  let ?ts = "texts ''Predicted_Category'' df"
  have "set (sort (remdups ?ts)) = set ?ts"
    by simp
  with texts_nonempty [OF assms] have "sort (remdups ?ts) \<noteq> []"
    by (metis set_empty)
  then show ?thesis
    by (simp add: groupby_sum_def)
qed

lemma idxmax_Inr:
  assumes "kvs \<noteq> []" and "\<forall>kv\<in>set kvs. snd kv \<noteq> NaN"
  shows "\<exists>l. idxmax kvs = Inr l"
proof -
  from assms(2) have "filter (\<lambda>kv. snd kv \<noteq> NaN) kvs = kvs"
    by (simp add: filter_id_conv)
  with assms(1) show ?thesis
    by (cases kvs) (simp_all add: idxmax_def)
qed

lemma view_zeros:
  assumes z: "\<forall>r\<in>set (rows df). r ''Amount'' = Some (Number (Fin 0))"
    and t: "\<forall>r\<in>set (rows df). \<exists>l. r ''Predicted_Category'' = Some (Text l)"
    and cols: "{''SMS'', ''Amount'', ''Type'', ''Predicted_Category''} \<subseteq> set (columns df)"
  shows "\<exists>r. view selected_type selected_cat df = Inr r \<and>
             total_spent (key r) = Fin 0 \<and> total_credited (key r) = Fin 0 \<and>
             (advice r = [Warning NoMatch] \<or> advice r = [category_tip (top_cat (key r))])"
proof -
  let ?fdf = "apply_filters selected_type selected_cat df"
  have sub: "set (rows ?fdf) \<subseteq> set (rows df)"
    by (auto simp: apply_filters_def)
  have z': "\<forall>r\<in>set (rows ?fdf). r ''Amount'' = Some (Number (Fin 0))"
    using z sub by blast
  have tot: "total_of ty ?fdf = Fin 0" for ty
    by (rule total_of_zeros [OF z'])
  have fcols: "columns ?fdf = columns df"
    by (simp add: apply_filters_def)
  have adv: "savings_advisor (Fin 0) (Fin 0) l = [category_tip l]" for l
    by (simp add: savings_advisor_shape)
  show ?thesis
  proof (cases "rows ?fdf")
    case Nil
    then show ?thesis
      by (simp add: view_def key_metrics_def empty_def tot)
  next
    case (Cons r0 rs0)
    then have r0: "r0 \<in> set (rows ?fdf)" by simp
    with t sub obtain l0 where "r0 ''Predicted_Category'' = Some (Text l0)" by blast
    from groupby_sum_nonempty [OF r0 this] have ne: "groupby_sum ?fdf \<noteq> []" .
    from groupby_sum_zeros [OF z'] have "\<forall>kv\<in>set (groupby_sum ?fdf). snd kv \<noteq> NaN"
      by auto
    from idxmax_Inr [OF ne this] obtain l where l: "idxmax (groupby_sum ?fdf) = Inr l"
      by blast
    have ne': "\<not> empty ?fdf"
      using Cons cols by (auto simp: empty_def fcols)
    have km: "key_metrics ?fdf = Inr \<lparr>total_spent = Fin 0, total_credited = Fin 0, top_cat = l\<rparr>"
      using ne' l by (simp add: key_metrics_def tot)
    obtain shown where
      sel: "select_columns [''SMS'', ''Amount'', ''Type'', ''Predicted_Category''] ?fdf = Inr shown"
      using cols by (simp add: select_columns_def fcols)
    have "view selected_type selected_cat df =
            Inr \<lparr>key = \<lparr>total_spent = Fin 0, total_credited = Fin 0, top_cat = l\<rparr>,
                 advice = savings_advisor (Fin 0) (Fin 0) l,
                 table = Some (to_csv shown), download = Some (to_csv ?fdf)\<rparr>"
      unfolding view_def Let_def km sel using ne' by simp
    then show ?thesis
      by (simp add: adv)
  qed
qed

lemma process_without_amounts:
  assumes none: "\<forall>u\<in>set (records up). extract_amount (normalise (u ''SMS'')) = Inr None"
    and len: "\<forall>msgs. length (predict msgs) = length msgs"
  shows "\<exists>df. process predict up = Inr df \<and>
              length (rows df) = length (records up) \<and>
              (\<forall>r\<in>set (rows df). r ''Amount'' = Some (Number (Fin 0))) \<and>
              (\<forall>r\<in>set (rows df). \<exists>l. r ''Predicted_Category'' = Some (Text l))"
proof -
  let ?df1 = "preprocess up"
  have a: "series_apply extract_amount (sms_column ?df1) = Inr (map (\<lambda>t. None) (sms_column ?df1))"
    by (rule series_apply_const) (use none in \<open>auto simp: sms_column_preprocess\<close>)
  define df2 where
    "df2 = set_series ''Amount'' (map (map_option Number) (map (\<lambda>t. None) (sms_column ?df1))) ?df1"
  have n1: "length (rows ?df1) = length (records up)"
    by (simp add: preprocess_def)
  have n2: "length (rows df2) = length (records up)"
    by (simp add: df2_def length_rows_set_series n1)
  have "column ''Amount'' df2 = map (map_option Number) (map (\<lambda>t. None) (sms_column ?df1))"
    unfolding df2_def
    by (rule column_set_series_same) (simp add: sms_column_def length_column)
  then have "list_all (\<lambda>r. r ''Amount'' = None) (rows df2)"
    by (auto simp: list_all_missing)
  then have h: "amount_handling df2 = set_scalar ''Amount'' (Number (Fin 0)) df2"
    by (simp add: amount_handling_def)
  define df3 where "df3 = amount_handling df2"
  have n3: "length (rows df3) = length (records up)"
    by (simp add: df3_def h set_scalar_def n2)
  have c3: "column ''Amount'' df3 = map (\<lambda>r. Some (Number (Fin 0))) (rows df2)"
    by (simp add: df3_def h column_set_scalar_same)
  define cats where "cats = map (\<lambda>l. Some (Text l)) (predict (sms_column df3))"
  have lc: "length cats = length (rows df3)"
    using len by (simp add: cats_def sms_column_def length_column)
  define df4 where "df4 = set_series ''Predicted_Category'' cats df3"
  have b: "set_array ''Predicted_Category'' cats df3 = Inr df4"
    using lc by (simp add: set_array_def df4_def)
  define df where
    "df = set_series ''Type'' (map (\<lambda>t. Some (Text (detect_type t))) (sms_column df4)) df4"
  have p: "process predict up = Inr df"
    unfolding process_def Let_def a sum.case df2_def [symmetric] df3_def [symmetric]
      cats_def [symmetric] b df_def [symmetric]
    by (rule refl)
  have n: "length (rows df) = length (records up)"
    by (simp add: df_def df4_def length_rows_set_series n3)
  have ca: "column ''Amount'' df = map (\<lambda>r. Some (Number (Fin 0))) (rows df2)"
    by (simp add: df_def df4_def column_set_series_other c3)
  have cc: "column ''Predicted_Category'' df = cats"
    using lc by (simp add: df_def df4_def column_set_series_other column_set_series_same)
  have za: "\<forall>r\<in>set (rows df). r ''Amount'' = Some (Number (Fin 0))"
  proof
    fix r assume "r \<in> set (rows df)"
    from cell_in_column [OF this, of "''Amount''"] show "r ''Amount'' = Some (Number (Fin 0))"
      by (auto simp: ca)
  qed
  have zc: "\<forall>r\<in>set (rows df). \<exists>l. r ''Predicted_Category'' = Some (Text l)"
  proof
    fix r assume "r \<in> set (rows df)"
    from cell_in_column [OF this, of "''Predicted_Category''"]
    show "\<exists>l. r ''Predicted_Category'' = Some (Text l)"
      by (auto simp: cc cats_def)
  qed
  from p n za zc show ?thesis by blast
qed

text \<open>
  Claim C10. Let the upload have the column SMS, let the extractor return no value for the
  normalised message of every record (the all-null case of line 161), and let the
  classifier give one label per message. Then the pipeline keeps every row and writes the
  amount 0 in each, and for every selection of the filters the dashboard is computed,
  both totals are 0, there is no spend ratio, and neither the progress bar, the caption nor
  any of the three band messages is shown.
\<close>

theorem degraded_totals_zero:
  assumes "''SMS'' \<in> set (header up)"
    and "\<forall>u\<in>set (records up). extract_amount (strip (lower (astype_str (u ''SMS'')))) = Inr None"
    and "\<forall>msgs. length (predict msgs) = length msgs"
  shows "\<exists>df r. process predict up = Inr df \<and>
            length (rows df) = length (records up) \<and>
            (\<forall>row\<in>set (rows df). row ''Amount'' = Some (Number (Fin 0))) \<and>
            dashboard predict up selected_type selected_cat = Inr (Some r) \<and>
            total_spent (key r) = Fin 0 \<and> total_credited (key r) = Fin 0 \<and>
            spend_ratio (total_spent (key r)) (total_credited (key r)) = None \<and>
            (\<forall>x. Progress x \<notin> set (advice r) \<and> Caption x \<notin> set (advice r)) \<and>
            Warning Over80 \<notin> set (advice r) \<and> Info Between60And80 \<notin> set (advice r) \<and>
            Success HealthyRatio \<notin> set (advice r)"
proof -
  from assms(2) have none: "\<forall>u\<in>set (records up). extract_amount (normalise (u ''SMS'')) = Inr None"
    by (simp add: normalise_def)
  from process_without_amounts [OF none assms(3)] obtain df where
    p: "process predict up = Inr df" and n: "length (rows df) = length (records up)"
    and za: "\<forall>r\<in>set (rows df). r ''Amount'' = Some (Number (Fin 0))"
    and zc: "\<forall>r\<in>set (rows df). \<exists>l. r ''Predicted_Category'' = Some (Text l)"
    by blast
  have cols: "{''SMS'', ''Amount'', ''Type'', ''Predicted_Category''} \<subseteq> set (columns df)"
    using assms(1) by (simp add: process_columns [OF p] set_add_column)
  from view_zeros [OF za zc cols, of selected_type selected_cat] obtain r where
    v: "view selected_type selected_cat df = Inr r"
    and s: "total_spent (key r) = Fin 0" and c: "total_credited (key r) = Fin 0"
    and adv: "advice r = [Warning NoMatch] \<or> advice r = [category_tip (top_cat (key r))]"
    by blast
  have d: "dashboard predict up selected_type selected_cat = Inr (Some r)"
    using assms(1) p v by (simp add: dashboard_def)
  have q: "spend_ratio (total_spent (key r)) (total_credited (key r)) = None"
    by (simp add: s c spend_ratio_def)
  have e: "(\<forall>x. Progress x \<notin> set (advice r) \<and> Caption x \<notin> set (advice r)) \<and>
            Warning Over80 \<notin> set (advice r) \<and> Info Between60And80 \<notin> set (advice r) \<and>
            Success HealthyRatio \<notin> set (advice r)"
    using adv category_tip_cases [of "top_cat (key r)"] by auto
  from p n za d s c q e show ?thesis by blast
qed

theorem degraded_totals_zero_witness:
  "''SMS'' \<in> set (header upload_without_amounts) \<and>
   extract_amount (strip (lower (astype_str (Some ''Salary credited'')))) = Inr None \<and>
   extract_amount (strip (lower (astype_str (Some ''Spent at the market'')))) = Inr None \<and>
   (\<forall>msgs. length (always_food msgs) = length msgs) \<and>
   (\<exists>df r. process always_food upload_without_amounts = Inr df \<and>
            length (rows df) = length (records upload_without_amounts) \<and>
            (\<forall>row\<in>set (rows df). row ''Amount'' = Some (Number (Fin 0))) \<and>
            dashboard always_food upload_without_amounts [''Debit'', ''Credit''] [''Food''] = Inr (Some r) \<and>
            total_spent (key r) = Fin 0 \<and> total_credited (key r) = Fin 0 \<and>
            spend_ratio (total_spent (key r)) (total_credited (key r)) = None \<and>
            (\<forall>x. Progress x \<notin> set (advice r) \<and> Caption x \<notin> set (advice r)) \<and>
            Warning Over80 \<notin> set (advice r) \<and> Info Between60And80 \<notin> set (advice r) \<and>
            Success HealthyRatio \<notin> set (advice r))"
proof -
  have h1: "''SMS'' \<in> set (header upload_without_amounts)"
    by (simp add: upload_without_amounts_def)
  have e1: "extract_amount (strip (lower (astype_str (Some ''Salary credited'')))) = Inr None"
    by code_simp
  have e2: "extract_amount (strip (lower (astype_str (Some ''Spent at the market'')))) = Inr None"
    by code_simp
  have h2: "\<forall>u\<in>set (records upload_without_amounts).
              extract_amount (strip (lower (astype_str (u ''SMS'')))) = Inr None"
    using e1 e2 by (simp add: upload_without_amounts_def)
  have h3: "\<forall>msgs. length (always_food msgs) = length msgs"
    by (simp add: always_food_def)
  from h1 e1 e2 h3 degraded_totals_zero [OF h1 h2 h3, of "[''Debit'', ''Credit'']" "[''Food'']"]
  show ?thesis by blast
qed

section \<open>The rows of the pipeline where it returns\<close>

lemma count_extracted:
  "map f xs = map Inr ys \<Longrightarrow>
     length (filter (\<lambda>y. y \<noteq> None) ys) = length (filter (\<lambda>x. \<exists>v. f x = Inr (Some v)) xs)"
proof (induction xs arbitrary: ys)
  case Nil
  then show ?case by simp
next
  case (Cons x xs)
  then obtain y ys1 where ys: "ys = y # ys1" and h: "f x = Inr y" and t: "map f xs = map Inr ys1"
    by (cases ys) auto
  from Cons.IH [OF t] h ys show ?case by auto
qed

lemma none_extracted:
  "map f xs = map Inr ys \<Longrightarrow>
     (\<forall>y\<in>set ys. y = None) = (\<not> (\<exists>x\<in>set xs. \<exists>v. f x = Inr (Some v)))"
proof (induction xs arbitrary: ys)
  case Nil
  then show ?case by simp
next
  case (Cons x xs)
  then obtain y ys1 where ys: "ys = y # ys1" and h: "f x = Inr y" and t: "map f xs = map Inr ys1"
    by (cases ys) auto
  from Cons.IH [OF t] h ys show ?case by auto
qed

lemma length_dropna:
  "length (rows (dropna c df)) = length (filter (\<lambda>x. x \<noteq> None) (column c df))"
  by (simp add: dropna_def column_def filter_map comp_def)

lemma column_dropna_same:
  "\<forall>x\<in>set (column c (dropna c df)). x \<noteq> None"
  by (auto simp: dropna_def column_def)

text \<open>
  Where the pipeline returns a table, its rows are counted as lines 161-165 say: if some
  record has an amount, one row for each record with an amount and none without; if no
  record has one, one row for each record, each with the amount 0.
\<close>

theorem pipeline_row_count:
  assumes "process predict up = Inr df"
  shows "if \<exists>u\<in>set (records up). \<exists>v. extract_amount (strip (lower (astype_str (u ''SMS'')))) = Inr (Some v)
         then length (rows df) =
                length (filter (\<lambda>u. \<exists>v. extract_amount (strip (lower (astype_str (u ''SMS'')))) = Inr (Some v))
                          (records up)) \<and>
              (\<forall>r\<in>set (rows df). r ''Amount'' \<noteq> None)
         else length (rows df) = length (records up) \<and>
              (\<forall>r\<in>set (rows df). r ''Amount'' = Some (Number (Fin 0)))"
proof -
  let ?f = "\<lambda>u. extract_amount (strip (lower (astype_str (u ''SMS''))))"
  from assms obtain amounts where
    a: "series_apply extract_amount (sms_column (preprocess up)) = Inr amounts"
    by (auto simp: process_def Let_def split: sum.splits)
  define df2 where "df2 = set_series ''Amount'' (map (map_option Number) amounts) (preprocess up)"
  define df3 where "df3 = amount_handling df2"
  from assms a obtain df4 where
    b: "set_array ''Predicted_Category'' (map (\<lambda>l. Some (Text l)) (predict (sms_column df3))) df3 = Inr df4"
    and c: "df = set_series ''Type'' (map (\<lambda>t. Some (Text (detect_type t))) (sms_column df4)) df4"
    by (auto simp: process_def Let_def df2_def df3_def split: sum.splits)
  from b have d4: "df4 = set_series ''Predicted_Category'' (map (\<lambda>l. Some (Text l)) (predict (sms_column df3))) df3"
    by (simp add: set_array_def split: if_splits)
  have m: "map ?f (records up) = map Inr amounts"
    using series_apply_Inr_D [OF a] by (simp add: sms_column_preprocess normalise_def comp_def)
  then have la: "length amounts = length (records up)"
    by (metis length_map)
  have ca: "column ''Amount'' df2 = map (map_option Number) amounts"
    unfolding df2_def
    by (rule column_set_series_same) (simp add: la preprocess_def)
  have n2: "length (rows df2) = length (records up)"
    by (simp add: df2_def length_rows_set_series preprocess_def)
  have keep: "length (rows df) = length (rows df3)" "column ''Amount'' df = column ''Amount'' df3"
    by (simp_all add: c d4 length_rows_set_series column_set_series_other)
  have all_none: "list_all (\<lambda>r. r ''Amount'' = None) (rows df2) = (\<not> (\<exists>u\<in>set (records up). \<exists>v. ?f u = Inr (Some v)))"
    using none_extracted [OF m] by (auto simp: list_all_missing ca)
  show ?thesis
  proof (cases "\<exists>u\<in>set (records up). \<exists>v. ?f u = Inr (Some v)")
    case True
    with all_none have d3: "df3 = dropna ''Amount'' df2"
      by (simp add: df3_def amount_handling_def)
    have "length (rows df3) = length (filter (\<lambda>y. y \<noteq> None) amounts)"
      by (simp add: d3 length_dropna ca filter_map comp_def)
    also have "\<dots> = length (filter (\<lambda>u. \<exists>v. ?f u = Inr (Some v)) (records up))"
      by (rule count_extracted [OF m])
    finally have "length (rows df) = length (filter (\<lambda>u. \<exists>v. ?f u = Inr (Some v)) (records up))"
      by (simp add: keep)
    moreover have "\<forall>r\<in>set (rows df). r ''Amount'' \<noteq> None"
    proof
      fix r assume "r \<in> set (rows df)"
      from cell_in_column [OF this, of "''Amount''"] column_dropna_same [of "''Amount''" df2]
      show "r ''Amount'' \<noteq> None"
        unfolding keep d3 by blast
    qed
    ultimately show ?thesis using True by simp
  next
    case False
    with all_none have d3: "df3 = set_scalar ''Amount'' (Number (Fin 0)) df2"
      by (simp add: df3_def amount_handling_def)
    have "length (rows df) = length (records up)"
      by (simp add: keep d3 set_scalar_def n2)
    moreover have "\<forall>r\<in>set (rows df). r ''Amount'' = Some (Number (Fin 0))"
    proof
      fix r assume "r \<in> set (rows df)"
      from cell_in_column [OF this, of "''Amount''"]
      show "r ''Amount'' = Some (Number (Fin 0))"
        unfolding keep d3 column_set_scalar_same by auto
    qed
    ultimately show ?thesis using False by simp
  qed
qed

theorem pipeline_row_count_witness:
  "(\<exists>df. process always_food upload_raw = Inr df \<and> length (rows df) = 1 \<and>
         (\<forall>r\<in>set (rows df). r ''Amount'' \<noteq> None)) \<and>
   extract_amount (strip (lower (astype_str (Some ''  Paid INR 100 '')))) = Inr (Some (Fin 100)) \<and>
   extract_amount (strip (lower (astype_str (Some ''no amount here'')))) = Inr None"
proof -
  have e1: "extract_amount (strip (lower (astype_str (Some ''  Paid INR 100 '')))) = Inr (Some (Fin 100))"
    by code_simp
  have e2: "extract_amount (strip (lower (astype_str (Some ''no amount here'')))) = Inr None"
    by code_simp
  have h: "\<forall>msgs. length (always_food msgs) = length msgs"
    by (simp add: always_food_def)
  obtain df where p: "process always_food upload_raw = Inr df"
    using e1 e2
    by (simp add: process_def preprocess_def sms_column_def column_def text_of_def normalise_def
        upload_raw_def amount_handling_def set_series_def set_array_def dropna_def always_food_def)
  from pipeline_row_count [OF p] e1 e2
  have "length (rows df) = 1 \<and> (\<forall>r\<in>set (rows df). r ''Amount'' \<noteq> None)"
    by (simp add: upload_raw_def)
  with p e1 e2 show ?thesis by blast
qed

text \<open>
  The pipeline returns a table when the extractor raises on no record and the classifier
  gives one label per message; it raises only when the extractor raises on a record or the
  classifier gives a wrong number of labels.
\<close>

lemma process_returns:
  assumes "\<forall>u\<in>set (records up). \<exists>a. extract_amount (strip (lower (astype_str (u ''SMS'')))) = Inr a"
    and "\<forall>msgs. length (predict msgs) = length msgs"
  shows "\<exists>df. process predict up = Inr df"
proof -
  have "\<forall>t\<in>set (sms_column (preprocess up)). \<exists>a. extract_amount t = Inr a"
    using assms(1) by (auto simp: sms_column_preprocess normalise_def)
  from series_apply_total [OF this] obtain amounts where
    a: "series_apply extract_amount (sms_column (preprocess up)) = Inr amounts"
    by blast
  define df3 where
    "df3 = amount_handling (set_series ''Amount'' (map (map_option Number) amounts) (preprocess up))"
  define cats where "cats = map (\<lambda>l. Some (Text l)) (predict (sms_column df3))"
  have "length cats = length (rows df3)"
    using assms(2) by (simp add: cats_def sms_column_def length_column)
  then obtain df4 where b: "set_array ''Predicted_Category'' cats df3 = Inr df4"
    by (simp add: set_array_def)
  show ?thesis
    unfolding process_def Let_def a sum.case df3_def [symmetric] cats_def [symmetric] b
    by blast
qed

lemma process_raises:
  assumes "process predict up = Inl e"
  shows "(\<exists>u\<in>set (records up). extract_amount (strip (lower (astype_str (u ''SMS'')))) = Inl e) \<or>
         (\<exists>msgs. length (predict msgs) \<noteq> length msgs)"
proof (cases "series_apply extract_amount (sms_column (preprocess up))")
  case (Inl e')
  with assms have "e' = e"
    by (simp add: process_def Let_def)
  with series_apply_Inl [of extract_amount "sms_column (preprocess up)" e] Inl
  show ?thesis
    by (auto simp: sms_column_preprocess normalise_def)
next
  case (Inr amounts)
  define df3 where
    "df3 = amount_handling (set_series ''Amount'' (map (map_option Number) amounts) (preprocess up))"
  define cats where "cats = map (\<lambda>l. Some (Text l)) (predict (sms_column df3))"
  from assms have "set_array ''Predicted_Category'' cats df3 = Inl e"
    unfolding process_def Let_def Inr sum.case df3_def [symmetric] cats_def [symmetric]
    by (simp split: sum.splits)
  then have "length cats \<noteq> length (rows df3)"
    by (simp add: set_array_def split: if_splits)
  then have "length (predict (sms_column df3)) \<noteq> length (sms_column df3)"
    by (simp add: cats_def sms_column_def length_column)
  then show ?thesis by blast
qed

end
